theory Spec2Isabelle
  imports Main "HOL-Library.AList"
begin

section \<open>The pipeline composer of miraiml.pipeline\<close>

text \<open>
  A shallow embedding of \<^verbatim>\<open>compose\<close> from \<^verbatim>\<open>src/miraiml/pipeline.py\<close>
  (lines 116 to 146), the class factory that validates a list of (alias, class) pairs and
  builds a pipeline class bound to that list.
\<close>

subsection \<open>Python values, classes and step descriptors\<close>

text \<open>
  An alias is whatever object the caller put first in the pair: the source tests it with
  \<^verbatim>\<open>isinstance(alias, str)\<close>, so the model keeps non-string values.
\<close>

datatype pyval = PNone | PBool bool | PInt int | PStr string

fun isinstance_str :: "pyval \<Rightarrow> bool" where
  "isinstance_str (PStr s) = True"
| "isinstance_str v = False"

text \<open>
  A class attribute is a method (callable) or a plain data attribute. The source never
  looks at the attribute itself, only at the listing of names that \<^verbatim>\<open>dir\<close> returns.
\<close>

datatype attribute = Callable | Data pyval

text \<open>
  A step class: \<^verbatim>\<open>__name__\<close>, every attribute that \<^verbatim>\<open>dir\<close> lists
  (inherited ones included) and the default values of the constructor's parameters. The
  last field is read only by the instances of the pipeline class, never by
  \<^verbatim>\<open>compose\<close>.
\<close>

record class_type =
  cls_name :: string
  cls_attrs :: "(string \<times> attribute) list"
  cls_defaults :: "(string \<times> pyval) list"

definition py_dir :: "class_type \<Rightarrow> string list" where
  "py_dir class_type = map fst (cls_attrs class_type)"

text \<open>
  The loop header \<^verbatim>\<open>for alias, class_type in steps\<close> unpacks pairs, so a step list
  is a list of pairs.
\<close>

type_synonym descriptor = "pyval \<times> class_type"

subsection \<open>Errors\<close>

text \<open>
  One constructor for each message the source raises, with the arguments of
  \<^verbatim>\<open>format\<close> kept as they are:
  \<^item> line 120, \<^verbatim>\<open>TypeError('{} is not a string'.format(alias))\<close>;
  \<^item> line 123, \<^verbatim>\<open>ValueError('{} is not allowed for an alias'.format(alias))\<close>;
  \<^item> lines 128, 134 and 139,
    \<^verbatim>\<open>NotImplementedError('{} must implement ...'.format(class_type.__name__))\<close>, the
    second argument being what follows \<^verbatim>\<open>must implement\<close>;
  \<^item> line 144, \<^verbatim>\<open>ValueError('Repeated aliases are not allowed')\<close>.
\<close>

datatype error =
    Not_a_string pyval
  | Not_allowed_alias string
  | Must_implement string string
  | Repeated_aliases

datatype py_exception = TypeError | ValueError | NotImplementedError

fun exception_class :: "error \<Rightarrow> py_exception" where
  "exception_class (Not_a_string v) = TypeError"
| "exception_class (Not_allowed_alias a) = ValueError"
| "exception_class (Must_implement c w) = NotImplementedError"
| "exception_class Repeated_aliases = ValueError"

text \<open>The names the specification gives to these failures (its section 7).\<close>

datatype spec_error =
    InvalidAliasType
  | InvalidAliasName
  | MissingCapability
  | DuplicateAlias
  | UnknownParameter
  | UnsupportedOperation

fun taxonomy :: "error \<Rightarrow> spec_error" where
  "taxonomy (Not_a_string v) = InvalidAliasType"
| "taxonomy (Not_allowed_alias a) = InvalidAliasName"
| "taxonomy (Must_implement c w) = MissingCapability"
| "taxonomy Repeated_aliases = DuplicateAlias"

subsection \<open>The composed class\<close>

text \<open>
  The value of \<^verbatim>\<open>type('MiraiPipeline', (BasePipelineClass,), dict(steps=steps))\<close>:
  the class name, its bases and the one entry of its namespace.
\<close>

record pipeline_type =
  tp_name :: string
  tp_bases :: "string list"
  tp_steps :: "descriptor list"

definition mirai_pipeline :: "descriptor list \<Rightarrow> pipeline_type" where
  "mirai_pipeline steps =
     \<lparr>tp_name = ''MiraiPipeline'', tp_bases = [''BasePipelineClass''], tp_steps = steps\<rparr>"

subsection \<open>compose\<close>

text \<open>
  The body of the \<^verbatim>\<open>for\<close> loop, lines 118 to 141. \<open>n\<close> is \<^verbatim>\<open>len(steps)\<close>,
  \<open>aliases\<close> the list the loop appends to, and \<open>valid\<close> stands for
  \<^verbatim>\<open>miraiml.util.is_valid_pipeline_name\<close>, which is imported from a module that is
  not among the sources and is therefore a parameter. The result is the list of aliases
  after the last iteration, or the first exception raised.
\<close>

fun compose_loop ::
  "(string \<Rightarrow> bool) \<Rightarrow> nat \<Rightarrow> string list \<Rightarrow> descriptor list \<Rightarrow> error + string list" where
  "compose_loop valid n aliases [] = Inr aliases"
| "compose_loop valid n aliases ((alias, class_type) # rest) =
     (case alias of
        PStr a \<Rightarrow>
          if \<not> valid a then Inl (Not_allowed_alias a)
          else
            let class_content = py_dir class_type in
            if ''fit'' \<notin> set class_content
            then Inl (Must_implement (cls_name class_type) ''fit'')
            else
              let aliases' = aliases @ [a] in
              if length aliases' < n then
                if ''transform'' \<notin> set class_content
                then Inl (Must_implement (cls_name class_type) ''transform'')
                else compose_loop valid n aliases' rest
              else
                if ''predict'' \<notin> set class_content \<and> ''predict_proba'' \<notin> set class_content
                then Inl (Must_implement (cls_name class_type) ''predict or predict_proba'')
                else compose_loop valid n aliases' rest
      | _ \<Rightarrow> Inl (Not_a_string alias))"

text \<open>
  The whole function: the loop, then the test \<^verbatim>\<open>len(set(aliases)) != len(aliases)\<close>
  of line 143, then the class of line 146.
\<close>

definition compose :: "(string \<Rightarrow> bool) \<Rightarrow> descriptor list \<Rightarrow> error + pipeline_type" where
  "compose valid steps =
     (case compose_loop valid (length steps) [] steps of
        Inl e \<Rightarrow> Inl e
      | Inr aliases \<Rightarrow>
          if card (set aliases) \<noteq> length aliases then Inl Repeated_aliases
          else Inr (mirai_pipeline steps))"

subsection \<open>The checks, one descriptor at a time\<close>

text \<open>
  The vocabulary of the specification, written independently of the loop so that the loop
  can be compared with it. A class has a capability when \<^verbatim>\<open>dir\<close> lists its name.
\<close>

definition has :: "class_type \<Rightarrow> string \<Rightarrow> bool" where
  "has class_type name = (name \<in> set (py_dir class_type))"

text \<open>
  The per-descriptor checks in the order the specification lists them (section 4.1): the
  alias is a string, the alias passes the naming predicate, the class has \<open>fit\<close>, and
  then \<open>transform\<close> for a descriptor that is not the last one, or one of \<open>predict\<close> and
  \<open>predict_proba\<close> for the last one. The result is the first failure, if any.
\<close>

fun descriptor_error :: "(string \<Rightarrow> bool) \<Rightarrow> bool \<Rightarrow> descriptor \<Rightarrow> error option" where
  "descriptor_error valid is_last (PStr a, c) =
     (if \<not> valid a then Some (Not_allowed_alias a)
      else if \<not> has c ''fit'' then Some (Must_implement (cls_name c) ''fit'')
      else if is_last then
        (if has c ''predict'' \<or> has c ''predict_proba'' then None
         else Some (Must_implement (cls_name c) ''predict or predict_proba''))
      else
        (if has c ''transform'' then None
         else Some (Must_implement (cls_name c) ''transform'')))"
| "descriptor_error valid is_last (v, c) = Some (Not_a_string v)"

text \<open>The first failure of a list of descriptors, in declared order; the last
  descriptor of the list is the terminal one.\<close>

fun first_error :: "(string \<Rightarrow> bool) \<Rightarrow> descriptor list \<Rightarrow> error option" where
  "first_error valid [] = None"
| "first_error valid (d # ds) =
     (case descriptor_error valid (ds = []) d of
        Some e \<Rightarrow> Some e
      | None \<Rightarrow> first_error valid ds)"

text \<open>The first failure among descriptors that all come before the last one.\<close>

fun prefix_error :: "(string \<Rightarrow> bool) \<Rightarrow> descriptor list \<Rightarrow> error option" where
  "prefix_error valid [] = None"
| "prefix_error valid (d # ds) =
     (case descriptor_error valid False d of
        Some e \<Rightarrow> Some e
      | None \<Rightarrow> prefix_error valid ds)"

text \<open>The aliases of a list of descriptors that are strings.\<close>

fun string_aliases :: "descriptor list \<Rightarrow> string list" where
  "string_aliases [] = []"
| "string_aliases ((PStr a, c) # ds) = a # string_aliases ds"
| "string_aliases ((v, c) # ds) = string_aliases ds"

text \<open>
  The same checks as plain predicates: an alias passes when it is a string that the naming
  predicate accepts; a class is capable for its position when it has \<open>fit\<close> and, if it
  is the last one, \<open>predict\<close> or \<open>predict_proba\<close>, otherwise \<open>transform\<close>.
\<close>

definition alias_ok :: "(string \<Rightarrow> bool) \<Rightarrow> descriptor \<Rightarrow> bool" where
  "alias_ok valid d = (case fst d of PStr a \<Rightarrow> valid a | _ \<Rightarrow> False)"

definition capable :: "bool \<Rightarrow> class_type \<Rightarrow> bool" where
  "capable is_last c =
     (has c ''fit'' \<and>
      (if is_last then has c ''predict'' \<or> has c ''predict_proba'' else has c ''transform''))"

text \<open>
  A step list lacks a capability when some class has no \<open>fit\<close>, some class before the
  last has no \<open>transform\<close>, or the last class has neither \<open>predict\<close> nor
  \<open>predict_proba\<close>.
\<close>

definition lacks_capability :: "descriptor list \<Rightarrow> bool" where
  "lacks_capability steps =
     ((\<exists>d \<in> set steps. \<not> has (snd d) ''fit'') \<or>
      (\<exists>d \<in> set (butlast steps). \<not> has (snd d) ''transform'') \<or>
      (steps \<noteq> [] \<and> \<not> has (snd (last steps)) ''predict''
         \<and> \<not> has (snd (last steps)) ''predict_proba''))"

definition passes_validation :: "(string \<Rightarrow> bool) \<Rightarrow> descriptor list \<Rightarrow> bool" where
  "passes_validation valid steps =
     ((\<forall>d \<in> set steps. alias_ok valid d) \<and> \<not> lacks_capability steps \<and>
      distinct (map fst steps))"

text \<open>
  A class with every attribute replaced by a data attribute holding \<^verbatim>\<open>None\<close>: the
  names that \<^verbatim>\<open>dir\<close> lists stay, nothing is callable any more.
\<close>

definition as_data :: "class_type \<Rightarrow> class_type" where
  "as_data c = c\<lparr>cls_attrs := map (\<lambda>(name, attr). (name, Data PNone)) (cls_attrs c)\<rparr>"

subsection \<open>The naming predicate\<close>

text \<open>The two-character separator \<^verbatim>\<open>__\<close> occurs in a string.\<close>

fun contains_separator :: "string \<Rightarrow> bool" where
  "contains_separator (c # d # cs) =
     ((c = CHR ''_'' \<and> d = CHR ''_'') \<or> contains_separator (d # cs))"
| "contains_separator cs = False"

definition is_digit :: "char \<Rightarrow> bool" where
  "is_digit c = (c \<in> set ''0123456789'')"

text \<open>
  Modelled from the spec: \<^verbatim>\<open>miraiml.util.is_valid_pipeline_name\<close> is imported by
  \<^verbatim>\<open>pipeline.py\<close> from a module that is not among the sources. The specification
  (section 6) gives its contract: it rejects empty strings, strings starting with a digit,
  and strings containing the two-character namespace separator. This is the predicate that
  rejects exactly those.
\<close>

definition is_valid_pipeline_name :: "string \<Rightarrow> bool" where
  "is_valid_pipeline_name s =
     (case s of [] \<Rightarrow> False | c # cs \<Rightarrow> \<not> is_digit c \<and> \<not> contains_separator s)"

subsection \<open>The classes of the module\<close>

text \<open>
  \<^verbatim>\<open>pipeline.py\<close> composes two baseline pipelines from scikit-learn classes (lines 149
  to 160). Of each class the model lists the attributes the checks look for next to the
  parameter methods, and some of its constructor's defaults.
\<close>

definition OneHotEncoder :: class_type where
  "OneHotEncoder =
     \<lparr>cls_name = ''OneHotEncoder'',
      cls_attrs = [(''fit'', Callable), (''fit_transform'', Callable),
        (''get_params'', Callable), (''set_params'', Callable), (''transform'', Callable)],
      cls_defaults = [(''drop'', PNone), (''sparse'', PBool True)]\<rparr>"

definition SimpleImputer :: class_type where
  "SimpleImputer =
     \<lparr>cls_name = ''SimpleImputer'',
      cls_attrs = [(''fit'', Callable), (''fit_transform'', Callable),
        (''get_params'', Callable), (''set_params'', Callable), (''transform'', Callable)],
      cls_defaults = [(''strategy'', PStr ''mean''), (''verbose'', PInt 0)]\<rparr>"

definition GaussianNB :: class_type where
  "GaussianNB =
     \<lparr>cls_name = ''GaussianNB'',
      cls_attrs = [(''fit'', Callable), (''get_params'', Callable), (''predict'', Callable),
        (''predict_proba'', Callable), (''set_params'', Callable)],
      cls_defaults = [(''priors'', PNone)]\<rparr>"

text \<open>Line 149, \<^verbatim>\<open>__initial_steps__\<close>.\<close>

definition initial_steps :: "descriptor list" where
  "initial_steps = [(PStr ''ohe'', OneHotEncoder), (PStr ''inpute'', SimpleImputer)]"

text \<open>A class with \<open>predict\<close> and no \<open>fit\<close>, for the examples.\<close>

definition NoFit :: class_type where
  "NoFit = \<lparr>cls_name = ''NoFit'', cls_attrs = [(''predict'', Callable)], cls_defaults = []\<rparr>"

text \<open>Line 152: the step list of \<^verbatim>\<open>NaiveBayesBaseliner\<close>.\<close>

definition naive_bayes_steps :: "descriptor list" where
  "naive_bayes_steps = initial_steps @ [(PStr ''naive'', GaussianNB)]"

section \<open>Instances of a composed class\<close>

text \<open>
  A composed class inherits its constructor and its methods from
  \<^verbatim>\<open>miraiml.core.BasePipelineClass\<close>, which is not among the sources. What follows is
  written from section 4.2 of the specification.
\<close>

type_synonym flat_params = "(string \<times> pyval) list"

text \<open>
  Modelled from the spec: the split of a flat key ``on the first occurrence of the
  namespace separator into (alias, paramName)'' of \<^verbatim>\<open>BasePipelineClass\<close>, which is
  missing. A key without the separator has no such split.
\<close>

fun split_key :: "string \<Rightarrow> (string \<times> string) option" where
  "split_key (c # d # cs) =
     (if c = CHR ''_'' \<and> d = CHR ''_'' then Some ([], cs)
      else map_option (\<lambda>(a, k). (c # a, k)) (split_key (d # cs)))"
| "split_key cs = None"

text \<open>
  Modelled from the spec: a mapping with an iteration order, as the specification's
  \<^verbatim>\<open>get_params\<close> returns, is an association list with distinct keys. Storing an entry
  replaces the value of a key that is present and appends a key that is not. This is also
  the step's own \<^verbatim>\<open>set_params\<close>, an external collaborator of which the
  specification only says that it takes a mapping: the entries are stored in the step's
  parameters.
\<close>

definition dict_update :: "('k \<times> 'v) list \<Rightarrow> ('k \<times> 'v) list \<Rightarrow> ('k \<times> 'v) list" where
  "dict_update entries d = fold (\<lambda>(k, v). AList.update k v) entries d"

definition dict_of :: "('k \<times> 'v) list \<Rightarrow> ('k \<times> 'v) list" where
  "dict_of entries = dict_update entries []"

text \<open>
  Modelled from the spec: a step instance of a pipeline instance (section 3), with the
  alias and class of its descriptor and its current parameters.
\<close>

record step_instance =
  st_alias :: string
  st_type :: class_type
  st_params :: "(string \<times> pyval) list"

text \<open>
  Modelled from the spec: a pipeline instance ``owns an ordered sequence of step
  instances, one per step descriptor''.
\<close>

record pipeline_instance =
  inst_steps :: "step_instance list"

text \<open>
  Modelled from the spec: step 2 of the construction, ``collect all entries whose alias
  matches, build a sub-mapping of {paramName: value}''.
\<close>

definition entries_for :: "string \<Rightarrow> flat_params \<Rightarrow> (string \<times> pyval) list" where
  "entries_for a flat =
     List.map_filter
       (\<lambda>(key, v). case split_key key of
           Some (a', k) \<Rightarrow> if a' = a then Some (k, v) else None
         | None \<Rightarrow> None) flat"

definition sub_mapping :: "string \<Rightarrow> flat_params \<Rightarrow> (string \<times> pyval) list" where
  "sub_mapping a flat = dict_of (entries_for a flat)"

text \<open>
  Modelled from the spec: step 3 of the construction with the policy the specification
  recommends and its property P6 requires: a key whose alias matches no known step fails
  with UnknownParameter. The specification says nothing of a key without the separator;
  here it names no step and fails in the same way.
\<close>

definition unknown_key :: "string list \<Rightarrow> string \<Rightarrow> bool" where
  "unknown_key aliases key =
     (case split_key key of Some (a, k) \<Rightarrow> a \<notin> set aliases | None \<Rightarrow> True)"

text \<open>
  Modelled from the spec: the constructor \<^verbatim>\<open>new(flatParams)\<close> of a pipeline class
  bound to the descriptors \<open>ds\<close>, whose aliases are strings. Each class is instantiated
  with its sub-mapping, ``absent entries mean the step-type's own defaults apply''.
\<close>

definition new :: "(string \<times> class_type) list \<Rightarrow> flat_params \<Rightarrow> spec_error + pipeline_instance" where
  "new ds flat =
     (if list_ex (unknown_key (map fst ds)) (map fst flat) then Inl UnknownParameter
      else Inr \<lparr>inst_steps =
        map (\<lambda>(a, c). \<lparr>st_alias = a, st_type = c,
               st_params = dict_update (sub_mapping a flat) (dict_of (cls_defaults c))\<rparr>) ds\<rparr>)"

text \<open>
  Modelled from the spec: \<^verbatim>\<open>set_params\<close>, ``same partitioning as construction; routes
  each partitioned sub-mapping into the corresponding step's own set_params''; it fails
  with UnknownParameter under the same policy.
\<close>

definition set_params :: "pipeline_instance \<Rightarrow> flat_params \<Rightarrow> spec_error + pipeline_instance" where
  "set_params p flat =
     (if list_ex (unknown_key (map st_alias (inst_steps p))) (map fst flat)
      then Inl UnknownParameter
      else Inr (p\<lparr>inst_steps :=
        map (\<lambda>s. s\<lparr>st_params := dict_update (sub_mapping (st_alias s) flat) (st_params s)\<rparr>)
          (inst_steps p)\<rparr>))"

text \<open>
  Modelled from the spec: \<^verbatim>\<open>get_params\<close>, ``for each step in order, for each of that
  step's own parameter names, emit alias__paramName -> currentValue''.
\<close>

definition emit :: "step_instance \<Rightarrow> flat_params" where
  "emit s = map (\<lambda>(k, v). (st_alias s @ ''__'' @ k, v)) (st_params s)"

definition get_params :: "pipeline_instance \<Rightarrow> flat_params" where
  "get_params p = dict_of (concat (map emit (inst_steps p)))"

text \<open>The descriptors of \<^verbatim>\<open>compose\<close> whose aliases are the given strings.\<close>

definition typed :: "(string \<times> class_type) list \<Rightarrow> descriptor list" where
  "typed ds = map (\<lambda>(a, c). (PStr a, c)) ds"

text \<open>
  Modelled from the spec: the descriptors a pipeline class is bound to, as the constructor
  of \<^verbatim>\<open>BasePipelineClass\<close>, which is missing, reads them from the class attribute
  \<open>steps\<close>, in the order of that list. A class that \<^verbatim>\<open>compose\<close> returned has only
  string aliases; a descriptor whose alias is not a string has no flat key and is left
  out.
\<close>

fun string_descriptors :: "descriptor list \<Rightarrow> (string \<times> class_type) list" where
  "string_descriptors [] = []"
| "string_descriptors ((PStr a, c) # ds) = (a, c) # string_descriptors ds"
| "string_descriptors ((v, c) # ds) = string_descriptors ds"

definition declared :: "pipeline_type \<Rightarrow> (string \<times> class_type) list" where
  "declared T = string_descriptors (tp_steps T)"

text \<open>
  Modelled from the spec: the instances of the class bound to \<open>ds\<close> are those its
  constructor returns, and those \<^verbatim>\<open>set_params\<close> returns from them (the lifecycle of
  section 3; fitting does not change parameters).
\<close>

inductive instance_of :: "(string \<times> class_type) list \<Rightarrow> pipeline_instance \<Rightarrow> bool"
  for ds :: "(string \<times> class_type) list" where
  constructed: "new ds flat = Inr p \<Longrightarrow> instance_of ds p"
| updated: "instance_of ds p \<Longrightarrow> set_params p flat = Inr p' \<Longrightarrow> instance_of ds p'"

text \<open>
  An alias that can be told apart from what follows it in a flat key: it neither contains
  the separator nor ends with an underscore.
\<close>

definition plain_alias :: "string \<Rightarrow> bool" where
  "plain_alias a = (\<not> contains_separator (a @ ''_''))"

definition well_formed :: "step_instance list \<Rightarrow> bool" where
  "well_formed S =
     (distinct (map st_alias S) \<and>
      (\<forall>s \<in> set S. plain_alias (st_alias s) \<and> distinct (map fst (st_params s))))"

text \<open>Examples: a two-step pipeline with the aliases \<open>a\<close> and \<open>b\<close>, its instance
  with default parameters, the instance of \<^verbatim>\<open>NaiveBayesBaseliner\<close>'s base class
  built with \<^verbatim>\<open>inpute__strategy='median'\<close>, and the instance of a one-step pipeline
  whose alias ends with an underscore.\<close>

definition two_steps :: "(string \<times> class_type) list" where
  "two_steps = [(''a'', OneHotEncoder), (''b'', GaussianNB)]"

definition two_steps_instance :: pipeline_instance where
  "two_steps_instance =
     \<lparr>inst_steps =
        [\<lparr>st_alias = ''a'', st_type = OneHotEncoder,
          st_params = [(''drop'', PNone), (''sparse'', PBool True)]\<rparr>,
         \<lparr>st_alias = ''b'', st_type = GaussianNB, st_params = [(''priors'', PNone)]\<rparr>]\<rparr>"

definition naive_bayes_instance :: pipeline_instance where
  "naive_bayes_instance =
     \<lparr>inst_steps =
        [\<lparr>st_alias = ''ohe'', st_type = OneHotEncoder,
          st_params = [(''drop'', PNone), (''sparse'', PBool True)]\<rparr>,
         \<lparr>st_alias = ''inpute'', st_type = SimpleImputer,
          st_params = [(''strategy'', PStr ''median''), (''verbose'', PInt 0)]\<rparr>,
         \<lparr>st_alias = ''naive'', st_type = GaussianNB, st_params = [(''priors'', PNone)]\<rparr>]\<rparr>"

definition trailing_underscore_instance :: pipeline_instance where
  "trailing_underscore_instance =
     \<lparr>inst_steps =
        [\<lparr>st_alias = ''a_'', st_type = GaussianNB, st_params = [(''priors'', PNone)]\<rparr>]\<rparr>"

section \<open>Properties\<close>

lemmas cls_simps = OneHotEncoder_def SimpleImputer_def GaussianNB_def initial_steps_def
  has_def py_dir_def alias_ok_def capable_def lacks_capability_def passes_validation_def
  is_valid_pipeline_name_def is_digit_def


subsection \<open>The loop against the per-descriptor checks\<close>

text \<open>
  The loop decides which descriptor is the last one by comparing the length of the list it
  has appended to with \<^verbatim>\<open>len(steps)\<close>. As long as the two lengths add up, that is the
  position of the descriptor in the list.
\<close>

lemma compose_loop_first_error:
  "length aliases + length rest = n \<Longrightarrow>
   compose_loop valid n aliases rest =
     (case first_error valid rest of
        Some e \<Rightarrow> Inl e
      | None \<Rightarrow> Inr (aliases @ string_aliases rest))"
proof (induction rest arbitrary: aliases)
  case Nil
  show ?case by simp
next
  case (Cons d rest)
  obtain v c where d: "d = (v, c)" by (cases d)
  show ?case
  proof (cases v)
    case (PStr a)
    have len: "length (aliases @ [a]) + length rest = n"
      using Cons.prems by simp
    have last_iff: "length (aliases @ [a]) < n \<longleftrightarrow> rest \<noteq> []"
      using Cons.prems by (cases rest) auto
    show ?thesis
      using Cons.IH [OF len] last_iff
      by (simp add: d PStr has_def Let_def split: option.split)
  qed (simp_all add: d)
qed

lemma first_error_None_aliases:
  "first_error valid steps = None \<Longrightarrow> map fst steps = map PStr (string_aliases steps)"
proof (induction steps)
  case Nil
  show ?case by simp
next
  case (Cons d steps)
  obtain v c where d: "d = (v, c)" by (cases d)
  from Cons.prems show ?case
    by (cases v) (auto simp: d Cons.IH split: option.splits)
qed

lemma distinct_string_aliases:
  assumes "first_error valid steps = None"
  shows "distinct (string_aliases steps) \<longleftrightarrow> distinct (map fst steps)"
proof -
  have "distinct (map PStr (string_aliases steps)) = distinct (string_aliases steps)"
    by (simp add: distinct_map inj_on_def)
  then show ?thesis
    using first_error_None_aliases [OF assms] by simp
qed

text \<open>compose, read as the specification describes it.\<close>

lemma compose_in_order:
  "compose valid steps =
     (case first_error valid steps of
        Some e \<Rightarrow> Inl e
      | None \<Rightarrow>
          if distinct (map fst steps) then Inr (mirai_pipeline steps)
          else Inl Repeated_aliases)"
proof (cases "first_error valid steps")
  case None
  have "compose_loop valid (length steps) [] steps = Inr (string_aliases steps)"
    using compose_loop_first_error [of "[]" steps "length steps" valid] None by simp
  moreover have "card (set (string_aliases steps)) = length (string_aliases steps)
      \<longleftrightarrow> distinct (map fst steps)"
    using distinct_string_aliases [OF None] card_distinct distinct_card by metis
  ultimately show ?thesis
    using None by (simp add: compose_def)
next
  case (Some e)
  have "compose_loop valid (length steps) [] steps = Inl e"
    using compose_loop_first_error [of "[]" steps "length steps" valid] Some by simp
  then show ?thesis
    using Some by (simp add: compose_def)
qed


subsection \<open>Which check fails first\<close>

lemma descriptor_error_None:
  "descriptor_error valid l d = None \<longleftrightarrow> alias_ok valid d \<and> capable l (snd d)"
proof -
  obtain v c where d: "d = (v, c)" by (cases d)
  show ?thesis by (cases v) (auto simp: d alias_ok_def capable_def)
qed

lemma descriptor_error_kind:
  "descriptor_error valid l d = Some e \<Longrightarrow> alias_ok valid d \<Longrightarrow>
     \<not> capable l (snd d) \<and> e = Must_implement (cls_name (snd d))
        (if \<not> has (snd d) ''fit'' then ''fit''
         else if l then ''predict or predict_proba'' else ''transform'')"
proof -
  obtain v c where d: "d = (v, c)" by (cases d)
  assume "descriptor_error valid l d = Some e" "alias_ok valid d"
  then show ?thesis by (cases v) (auto simp: d alias_ok_def capable_def split: if_splits)
qed

lemma lacks_capability_Cons:
  "lacks_capability (d # ds) \<longleftrightarrow>
     (if ds = [] then \<not> capable True (snd d)
      else \<not> capable False (snd d) \<or> lacks_capability ds)"
  by (auto simp: lacks_capability_def capable_def)

lemma lacks_capability_Nil: "\<not> lacks_capability []"
  by (simp add: lacks_capability_def)

lemma first_error_None:
  "first_error valid steps = None \<longleftrightarrow>
     (\<forall>d \<in> set steps. alias_ok valid d) \<and> \<not> lacks_capability steps"
proof (induction steps)
  case Nil
  show ?case by (simp add: lacks_capability_Nil)
next
  case (Cons d ds)
  show ?case
  proof (cases "descriptor_error valid (ds = []) d")
    case None
    then show ?thesis
      using Cons.IH descriptor_error_None [of valid "ds = []" d]
      by (cases "ds = []") (auto simp: lacks_capability_Cons lacks_capability_Nil)
  next
    case (Some e)
    then show ?thesis
      using descriptor_error_None [of valid "ds = []" d]
      by (auto simp: lacks_capability_Cons)
  qed
qed

lemma first_error_append:
  "\<forall>p \<in> set pre. descriptor_error valid False p = None \<Longrightarrow>
   first_error valid (pre @ d # post) = first_error valid (d # post)"
  by (induction pre) auto

lemma first_error_capability:
  "\<forall>d \<in> set steps. alias_ok valid d \<Longrightarrow> first_error valid steps = Some e \<Longrightarrow>
     taxonomy e = MissingCapability"
proof (induction steps)
  case Nil
  then show ?case by simp
next
  case (Cons d ds)
  show ?case
  proof (cases "descriptor_error valid (ds = []) d")
    case None
    then show ?thesis using Cons by simp
  next
    case (Some e')
    then have "e' = e" using Cons.prems by simp
    moreover have "alias_ok valid d" using Cons.prems(1) by simp
    ultimately show ?thesis
      using descriptor_error_kind [OF Some] by auto
  qed
qed

lemma first_error_not_allowed:
  "first_error valid steps = Some (Not_allowed_alias a) \<Longrightarrow> \<not> valid a"
proof (induction steps)
  case Nil
  then show ?case by simp
next
  case (Cons d ds)
  obtain v c where d: "d = (v, c)" by (cases d)
  from Cons show ?case
    by (cases v) (auto simp: d split: option.splits if_splits)
qed

lemma first_error_prefix:
  "first_error valid (pre @ d # post) =
     (case prefix_error valid pre of
        Some e \<Rightarrow> Some e
      | None \<Rightarrow> first_error valid (d # post))"
  by (induction pre) (simp_all split: option.splits)

lemma prefix_error_None:
  "prefix_error valid pre = None \<longleftrightarrow>
     (\<forall>p \<in> set pre. alias_ok valid p \<and> capable False (snd p))"
proof (induction pre)
  case Nil
  show ?case by simp
next
  case (Cons d pre)
  show ?case
    using Cons.IH descriptor_error_None [of valid False d]
    by (cases "descriptor_error valid False d") auto
qed

lemma compose_first_violation:
  assumes "\<forall>p \<in> set pre. alias_ok valid p \<and> capable False (snd p)"
    and "descriptor_error valid (post = []) d = Some e"
  shows "compose valid (pre @ d # post) = Inl e"
proof -
  have "\<forall>p \<in> set pre. descriptor_error valid False p = None"
    using assms(1) by (simp add: descriptor_error_None)
  then have "first_error valid (pre @ d # post) = Some e"
    using assms(2) by (simp add: first_error_append)
  then show ?thesis by (simp add: compose_in_order)
qed

lemma descriptor_error_not_repeated:
  "descriptor_error valid l d \<noteq> Some Repeated_aliases"
proof -
  obtain v c where d: "d = (v, c)" by (cases d)
  show ?thesis by (cases v) (simp_all add: d)
qed

lemma first_error_not_repeated: "first_error valid steps \<noteq> Some Repeated_aliases"
proof (induction steps)
  case Nil
  show ?case by simp
next
  case (Cons d ds)
  then show ?case
    using descriptor_error_not_repeated [of valid "ds = []" d]
    by (auto split: option.splits)
qed

lemma compose_repeated_aliases:
  "compose valid steps = Inl Repeated_aliases \<longleftrightarrow>
     (\<forall>d \<in> set steps. alias_ok valid d) \<and> \<not> lacks_capability steps \<and>
     \<not> distinct (map fst steps)"
  using first_error_not_repeated [of valid steps] first_error_None [of valid steps]
  by (auto simp: compose_in_order split: option.splits)

lemma compose_not_allowed:
  "compose valid steps = Inl (Not_allowed_alias a) \<Longrightarrow> \<not> valid a"
  using first_error_not_allowed [of valid steps a]
  by (auto simp: compose_in_order split: option.splits if_splits)

subsection \<open>Attribute names and callability\<close>

lemma has_as_data: "has (as_data c) name = has c name"
  by (simp add: has_def py_dir_def as_data_def case_prod_unfold comp_def)

lemma cls_name_as_data: "cls_name (as_data c) = cls_name c"
  by (simp add: as_data_def)

lemma descriptor_error_as_data:
  "descriptor_error valid l (v, as_data c) = descriptor_error valid l (v, c)"
  by (cases v) (simp_all add: has_as_data cls_name_as_data)

lemma first_error_as_data:
  "first_error valid (map (\<lambda>(a, c). (a, as_data c)) steps) = first_error valid steps"
proof (induction steps)
  case Nil
  show ?case by simp
next
  case (Cons d ds)
  obtain v c where d: "d = (v, c)" by (cases d)
  show ?case
    using Cons.IH by (simp add: d descriptor_error_as_data split: option.split)
qed

lemma map_fst_as_data:
  "map fst (map (\<lambda>(a, c). (a, as_data c)) steps) = map fst steps"
  by (induction steps) auto

lemma compose_succeeds_iff:
  "(\<exists>T. compose valid steps = Inr T) \<longleftrightarrow> passes_validation valid steps"
  using first_error_None [of valid steps]
  by (auto simp: compose_in_order passes_validation_def split: option.splits)

lemma compose_naive_bayes:
  "compose is_valid_pipeline_name naive_bayes_steps = Inr (mirai_pipeline naive_bayes_steps)"
  by (simp add: compose_def naive_bayes_steps_def cls_simps)

subsection \<open>The claims about compose\<close>

text \<open>
  C3. compose validates the descriptors one at a time in declared order. When every
  descriptor before one has passed its checks, that descriptor's alias is tested for being
  a string first, then by the naming predicate, then its class for the capabilities of its
  position; the first failure is raised whatever the later descriptors are. The duplicate
  test runs after the loop: it is only raised for a list whose descriptors all passed.
\<close>

theorem compose_checks_in_declared_order:
  "((\<forall>p \<in> set pre. alias_ok valid p \<and> capable False (snd p)) \<longrightarrow>
      (\<not> isinstance_str v \<longrightarrow> compose valid (pre @ (v, c) # post) = Inl (Not_a_string v)) \<and>
      (\<not> valid a \<longrightarrow>
         compose valid (pre @ (PStr a, c) # post) = Inl (Not_allowed_alias a)) \<and>
      (valid a \<and> \<not> capable (post = []) c \<longrightarrow>
         (\<exists>w. compose valid (pre @ (PStr a, c) # post) = Inl (Must_implement (cls_name c) w))))
   \<and> (compose valid steps = Inl Repeated_aliases \<longrightarrow>
        (\<forall>d \<in> set steps. alias_ok valid d) \<and> \<not> lacks_capability steps)"
proof (intro conjI impI)
  assume pre: "\<forall>p \<in> set pre. alias_ok valid p \<and> capable False (snd p)"
  {
    assume "\<not> isinstance_str v"
    then have "descriptor_error valid (post = []) (v, c) = Some (Not_a_string v)"
      by (cases v) simp_all
    then show "compose valid (pre @ (v, c) # post) = Inl (Not_a_string v)"
      by (rule compose_first_violation [OF pre])
  }
  {
    assume "\<not> valid a"
    then have "descriptor_error valid (post = []) (PStr a, c) = Some (Not_allowed_alias a)"
      by simp
    then show "compose valid (pre @ (PStr a, c) # post) = Inl (Not_allowed_alias a)"
      by (rule compose_first_violation [OF pre])
  }
  {
    assume "valid a \<and> \<not> capable (post = []) c"
    then have "\<exists>w. descriptor_error valid (post = []) (PStr a, c)
        = Some (Must_implement (cls_name c) w)"
      by (auto simp: capable_def split: if_splits)
    then show "\<exists>w. compose valid (pre @ (PStr a, c) # post)
        = Inl (Must_implement (cls_name c) w)"
      using compose_first_violation [OF pre] by blast
  }
next
  assume "compose valid steps = Inl Repeated_aliases"
  then show "\<forall>d \<in> set steps. alias_ok valid d" "\<not> lacks_capability steps"
    by (simp_all add: compose_repeated_aliases)
qed

theorem compose_checks_in_declared_order_witness:
  "compose is_valid_pipeline_name
     (initial_steps @ (PInt 7, NoFit) # [(PStr ''1bad'', NoFit)]) = Inl (Not_a_string (PInt 7)) \<and>
   compose is_valid_pipeline_name
     (initial_steps @ (PStr ''1bad'', NoFit) # [(PInt 7, NoFit)]) = Inl (Not_allowed_alias ''1bad'') \<and>
   (\<exists>w. compose is_valid_pipeline_name
     (initial_steps @ (PStr ''ohe'', NoFit) # [(PInt 7, NoFit)]) = Inl (Must_implement ''NoFit'' w)) \<and>
   compose is_valid_pipeline_name
     [(PStr ''ohe'', OneHotEncoder), (PStr ''ohe'', GaussianNB)] = Inl Repeated_aliases \<and>
   \<not> lacks_capability [(PStr ''ohe'', OneHotEncoder), (PStr ''ohe'', GaussianNB)]"
proof -
  have pre: "\<forall>p \<in> set initial_steps.
      alias_ok is_valid_pipeline_name p \<and> capable False (snd p)"
    by (simp add: cls_simps)
  have dup: "compose is_valid_pipeline_name
     [(PStr ''ohe'', OneHotEncoder), (PStr ''ohe'', GaussianNB)] = Inl Repeated_aliases"
    by (simp add: compose_def cls_simps)
  have nv: "\<not> is_valid_pipeline_name ''1bad''" "is_valid_pipeline_name ''ohe''"
    by (simp_all add: cls_simps)
  have nc: "\<not> capable ([(PInt 7, NoFit)] = []) NoFit" "cls_name NoFit = ''NoFit''"
    by (simp_all add: capable_def has_def py_dir_def NoFit_def)
  show ?thesis
    using pre dup nv nc
      compose_checks_in_declared_order [of initial_steps is_valid_pipeline_name
        "PInt 7" NoFit "[(PStr ''1bad'', NoFit)]" "''1bad''"
        "[(PStr ''ohe'', OneHotEncoder), (PStr ''ohe'', GaussianNB)]"]
      compose_checks_in_declared_order [of initial_steps is_valid_pipeline_name
        "PInt 7" NoFit "[(PInt 7, NoFit)]" "''1bad''"
        "[(PStr ''ohe'', OneHotEncoder), (PStr ''ohe'', GaussianNB)]"]
      compose_checks_in_declared_order [of initial_steps is_valid_pipeline_name
        "PInt 7" NoFit "[(PInt 7, NoFit)]" "''ohe''"
        "[(PStr ''ohe'', OneHotEncoder), (PStr ''ohe'', GaussianNB)]"]
    by simp
qed

text \<open>
  C2, as stated, fails: the alias checks of a descriptor come before its capability
  checks, so a list whose only class lacks \<open>fit\<close> fails with the alias error when the
  alias is not a string.
\<close>

theorem compose_capability_counterexample:
  "compose is_valid_pipeline_name [(PInt 1, NoFit)] = Inl (Not_a_string (PInt 1)) \<and>
   lacks_capability [(PInt 1, NoFit)] \<and>
   exception_class (Not_a_string (PInt 1)) = TypeError \<and>
   taxonomy (Not_a_string (PInt 1)) = InvalidAliasType"
  by (simp add: compose_def cls_simps NoFit_def)

text \<open>
  C2, amended. For every step list whose aliases are all strings that the naming predicate
  accepts, compose fails with MissingCapability exactly when some class lacks \<open>fit\<close>,
  some class before the last lacks \<open>transform\<close>, or the last class lacks both
  \<open>predict\<close> and \<open>predict_proba\<close>. So a last class with \<open>fit\<close> and either of
  \<open>predict\<close> and \<open>predict_proba\<close> passes, and \<open>transform\<close> is never required of
  it.
\<close>

theorem compose_missing_capability:
  assumes "\<forall>d \<in> set steps. alias_ok valid d"
  shows "(\<exists>e. compose valid steps = Inl e \<and> taxonomy e = MissingCapability)
     \<longleftrightarrow> lacks_capability steps"
proof (cases "first_error valid steps")
  case None
  then have "\<not> lacks_capability steps"
    by (simp add: first_error_None)
  moreover have "\<not> (\<exists>e. compose valid steps = Inl e \<and> taxonomy e = MissingCapability)"
    using None by (auto simp: compose_in_order split: if_splits)
  ultimately show ?thesis by simp
next
  case (Some e)
  have "lacks_capability steps"
    using Some assms first_error_None [of valid steps] by auto
  moreover have "compose valid steps = Inl e"
    using Some by (simp add: compose_in_order)
  moreover have "taxonomy e = MissingCapability"
    using first_error_capability [OF assms Some] .
  ultimately show ?thesis by simp
qed

theorem compose_missing_capability_witness:
  "alias_ok is_valid_pipeline_name (PStr ''ohe'', NoFit) \<and>
   alias_ok is_valid_pipeline_name (PStr ''naive'', GaussianNB) \<and>
   lacks_capability [(PStr ''ohe'', NoFit), (PStr ''naive'', GaussianNB)] \<and>
   (\<exists>e. compose is_valid_pipeline_name [(PStr ''ohe'', NoFit), (PStr ''naive'', GaussianNB)]
      = Inl e \<and> taxonomy e = MissingCapability) \<and>
   \<not> lacks_capability [(PStr ''naive'', GaussianNB)] \<and>
   \<not> has GaussianNB ''transform'' \<and>
   \<not> (\<exists>e. compose is_valid_pipeline_name [(PStr ''naive'', GaussianNB)]
      = Inl e \<and> taxonomy e = MissingCapability)"
proof -
  have a: "\<forall>d \<in> set [(PStr ''ohe'', NoFit), (PStr ''naive'', GaussianNB)].
      alias_ok is_valid_pipeline_name d"
    by (simp add: cls_simps)
  have b: "lacks_capability [(PStr ''ohe'', NoFit), (PStr ''naive'', GaussianNB)]"
    by (simp add: cls_simps NoFit_def)
  have c: "\<forall>d \<in> set [(PStr ''naive'', GaussianNB)]. alias_ok is_valid_pipeline_name d"
    by (simp add: cls_simps)
  have d: "\<not> lacks_capability [(PStr ''naive'', GaussianNB)]"
    "\<not> has GaussianNB ''transform''"
    by (simp_all add: cls_simps)
  show ?thesis
    using a b c d compose_missing_capability [OF a] compose_missing_capability [OF c]
    by simp
qed

text \<open>
  C4, as stated, fails: the duplicate test runs after the loop, so a first class without
  \<open>fit\<close> makes the loop raise before the shared alias is noticed.
\<close>

theorem compose_shared_alias_counterexample:
  "compose is_valid_pipeline_name [(PStr ''a'', NoFit), (PStr ''a'', GaussianNB)]
     = Inl (Must_implement ''NoFit'' ''fit'') \<and>
   exception_class (Must_implement ''NoFit'' ''fit'') = NotImplementedError \<and>
   taxonomy (Must_implement ''NoFit'' ''fit'') = MissingCapability"
  by (simp add: compose_def cls_simps NoFit_def)

text \<open>
  C4, amended. Composing a two-step list whose descriptors share the alias \<open>a\<close>, which
  the naming predicate accepts, fails with DuplicateAlias exactly when the first class has
  \<open>fit\<close> and \<open>transform\<close> and the second has \<open>fit\<close> and one of \<open>predict\<close> and
  \<open>predict_proba\<close>; otherwise it fails with MissingCapability.
\<close>

theorem compose_shared_alias:
  assumes "valid ''a''"
  shows "(compose valid [(PStr ''a'', T1), (PStr ''a'', T2)] = Inl Repeated_aliases
      \<longleftrightarrow> capable False T1 \<and> capable True T2) \<and>
    taxonomy Repeated_aliases = DuplicateAlias \<and>
    (\<not> (capable False T1 \<and> capable True T2) \<longrightarrow>
       (\<exists>e. compose valid [(PStr ''a'', T1), (PStr ''a'', T2)] = Inl e
          \<and> taxonomy e = MissingCapability))"
proof -
  have ok: "\<forall>d \<in> set [(PStr ''a'', T1), (PStr ''a'', T2)]. alias_ok valid d"
    using assms by (simp add: alias_ok_def)
  have lc: "lacks_capability [(PStr ''a'', T1), (PStr ''a'', T2)]
      \<longleftrightarrow> \<not> (capable False T1 \<and> capable True T2)"
    by (simp add: lacks_capability_Cons)
  have 1: "compose valid [(PStr ''a'', T1), (PStr ''a'', T2)] = Inl Repeated_aliases
      \<longleftrightarrow> capable False T1 \<and> capable True T2"
    using ok lc by (simp add: compose_repeated_aliases)
  have 2: "\<not> (capable False T1 \<and> capable True T2) \<longrightarrow>
       (\<exists>e. compose valid [(PStr ''a'', T1), (PStr ''a'', T2)] = Inl e
          \<and> taxonomy e = MissingCapability)"
  proof
    assume "\<not> (capable False T1 \<and> capable True T2)"
    then have "first_error valid [(PStr ''a'', T1), (PStr ''a'', T2)] \<noteq> None"
      using lc by (simp only: first_error_None) simp
    then obtain e where e: "first_error valid [(PStr ''a'', T1), (PStr ''a'', T2)] = Some e"
      by blast
    have "taxonomy e = MissingCapability"
      using first_error_capability [OF ok e] .
    moreover have "compose valid [(PStr ''a'', T1), (PStr ''a'', T2)] = Inl e"
      using e by (simp only: compose_in_order) simp
    ultimately show "\<exists>e. compose valid [(PStr ''a'', T1), (PStr ''a'', T2)] = Inl e
          \<and> taxonomy e = MissingCapability"
      by blast
  qed
  show ?thesis using 1 2 by simp
qed

theorem compose_shared_alias_witness:
  "is_valid_pipeline_name ''a'' \<and> capable False OneHotEncoder \<and> capable True GaussianNB \<and>
   compose is_valid_pipeline_name [(PStr ''a'', OneHotEncoder), (PStr ''a'', GaussianNB)]
     = Inl Repeated_aliases \<and>
   \<not> capable False NoFit \<and>
   (\<exists>e. compose is_valid_pipeline_name [(PStr ''a'', NoFit), (PStr ''a'', GaussianNB)] = Inl e
      \<and> taxonomy e = MissingCapability)"
proof -
  have v: "is_valid_pipeline_name ''a''"
    by (simp add: cls_simps)
  have c: "capable False OneHotEncoder" "capable True GaussianNB" "\<not> capable False NoFit"
    by (simp_all add: cls_simps NoFit_def)
  show ?thesis
    using v c compose_shared_alias [of is_valid_pipeline_name OneHotEncoder GaussianNB]
      compose_shared_alias [of is_valid_pipeline_name NoFit GaussianNB]
    by blast
qed

text \<open>
  C5, as stated, fails: the descriptors are checked in declared order, so a descriptor
  before the one with the alias \<open>1bad\<close> that violates a check makes compose fail
  with that descriptor's error.
\<close>

theorem compose_alias_naming_counterexample:
  "compose is_valid_pipeline_name [(PInt 7, GaussianNB), (PStr ''1bad'', GaussianNB)]
     = Inl (Not_a_string (PInt 7)) \<and>
   exception_class (Not_a_string (PInt 7)) = TypeError \<and>
   taxonomy (Not_a_string (PInt 7)) = InvalidAliasType"
  by (simp add: compose_def)

text \<open>
  C5, amended. Assume the naming predicate rejects exactly the empty string, strings
  starting with a digit and strings containing the separator. Then composing a list that
  holds the alias \<open>1bad\<close> or \<open>x__y\<close> always fails, whatever its class and the later
  descriptors: with the error of the first earlier descriptor that violates a check, if
  there is one, and otherwise with InvalidAliasName; so with InvalidAliasName whenever
  every earlier descriptor passes its checks, and always when it is the first descriptor.
  The alias \<open>valid_name\<close> is never the cause of an InvalidAliasName failure.
\<close>

theorem compose_alias_naming:
  assumes "\<forall>s. valid s = is_valid_pipeline_name s"
  shows "(a = ''1bad'' \<or> a = ''x__y'' \<longrightarrow>
       compose valid (pre @ (PStr a, c) # post) =
         Inl (case prefix_error valid pre of Some e \<Rightarrow> e | None \<Rightarrow> Not_allowed_alias a) \<and>
       ((\<forall>p \<in> set pre. alias_ok valid p \<and> capable False (snd p)) \<longrightarrow>
          compose valid (pre @ (PStr a, c) # post) = Inl (Not_allowed_alias a)) \<and>
       compose valid ((PStr a, c) # post) = Inl (Not_allowed_alias a) \<and>
       taxonomy (Not_allowed_alias a) = InvalidAliasName)
    \<and> compose valid steps \<noteq> Inl (Not_allowed_alias ''valid_name'')"
proof (intro conjI impI)
  assume a: "a = ''1bad'' \<or> a = ''x__y''"
  then have nv: "\<not> valid a"
    using assms by (auto simp: is_valid_pipeline_name_def is_digit_def)
  have here: "first_error valid ((PStr a, c) # post) = Some (Not_allowed_alias a)"
    using nv by simp
  have "first_error valid (pre @ (PStr a, c) # post) =
      Some (case prefix_error valid pre of Some e \<Rightarrow> e | None \<Rightarrow> Not_allowed_alias a)"
    unfolding first_error_prefix here by (simp split: option.splits)
  then show exact: "compose valid (pre @ (PStr a, c) # post) =
      Inl (case prefix_error valid pre of Some e \<Rightarrow> e | None \<Rightarrow> Not_allowed_alias a)"
    by (simp add: compose_in_order)
  show "compose valid ((PStr a, c) # post) = Inl (Not_allowed_alias a)"
    using here by (simp only: compose_in_order) simp
  show "taxonomy (Not_allowed_alias a) = InvalidAliasName" by simp
  assume "\<forall>p \<in> set pre. alias_ok valid p \<and> capable False (snd p)"
  then have "prefix_error valid pre = None"
    by (simp add: prefix_error_None)
  then show "compose valid (pre @ (PStr a, c) # post) = Inl (Not_allowed_alias a)"
    using exact by simp
next
  have "valid ''valid_name''"
    using assms by (simp add: is_valid_pipeline_name_def is_digit_def)
  then show "compose valid steps \<noteq> Inl (Not_allowed_alias ''valid_name'')"
    using compose_not_allowed [of valid steps "''valid_name''"] by blast
qed

theorem compose_alias_naming_witness:
  "compose is_valid_pipeline_name (initial_steps @ (PStr ''1bad'', GaussianNB) # [])
     = Inl (Not_allowed_alias ''1bad'') \<and>
   compose is_valid_pipeline_name ([(PStr ''ohe'', NoFit)] @ (PStr ''1bad'', GaussianNB) # [])
     = Inl (Must_implement ''NoFit'' ''fit'') \<and>
   compose is_valid_pipeline_name ((PStr ''x__y'', NoFit) # [(PInt 0, NoFit)])
     = Inl (Not_allowed_alias ''x__y'') \<and>
   compose is_valid_pipeline_name [(PStr ''valid_name'', NoFit)]
     \<noteq> Inl (Not_allowed_alias ''valid_name'')"
proof -
  have pre: "\<forall>p \<in> set initial_steps.
      alias_ok is_valid_pipeline_name p \<and> capable False (snd p)"
    by (simp add: cls_simps)
  have bad: "prefix_error is_valid_pipeline_name [(PStr ''ohe'', NoFit)]
      = Some (Must_implement ''NoFit'' ''fit'')"
    by (simp add: cls_simps NoFit_def)
  have 1: "compose is_valid_pipeline_name (initial_steps @ (PStr ''1bad'', GaussianNB) # [])
     = Inl (Not_allowed_alias ''1bad'')"
    using pre compose_alias_naming [of is_valid_pipeline_name "''1bad''" initial_steps
        GaussianNB "[]" "[(PStr ''valid_name'', NoFit)]"]
    by blast
  have 2: "compose is_valid_pipeline_name
       ([(PStr ''ohe'', NoFit)] @ (PStr ''1bad'', GaussianNB) # [])
     = Inl (Must_implement ''NoFit'' ''fit'')"
    using compose_alias_naming [of is_valid_pipeline_name "''1bad''" "[(PStr ''ohe'', NoFit)]"
        GaussianNB "[]" "[(PStr ''valid_name'', NoFit)]"]
    by (simp add: bad del: prefix_error.simps)
  have 3: "compose is_valid_pipeline_name ((PStr ''x__y'', NoFit) # [(PInt 0, NoFit)])
     = Inl (Not_allowed_alias ''x__y'') \<and>
   compose is_valid_pipeline_name [(PStr ''valid_name'', NoFit)]
     \<noteq> Inl (Not_allowed_alias ''valid_name'')"
    using compose_alias_naming [of is_valid_pipeline_name "''x__y''" "[]" NoFit
        "[(PInt 0, NoFit)]" "[(PStr ''valid_name'', NoFit)]"]
    by blast
  show ?thesis using 1 2 3 by blast
qed

text \<open>
  C9. Calling compose with the empty step list raises nothing: the loop body never runs,
  the duplicate test compares 0 with 0, and the class returned has an empty step sequence.
  No check enforces that the list be non-empty.
\<close>

theorem compose_empty_steps:
  "compose valid [] = Inr (mirai_pipeline []) \<and> tp_steps (mirai_pipeline []) = []"
  by (simp add: compose_def mirai_pipeline_def)

text \<open>
  C10. The capability checks look at attribute names only. Replacing every attribute of
  every class by a data attribute that is not callable changes neither whether compose
  succeeds nor the error it raises. In particular a class whose \<open>fit\<close> and \<open>predict\<close>
  are plain data is admitted.
\<close>

theorem compose_checks_names_only:
  "compose valid (map (\<lambda>(a, c). (a, as_data c)) steps) =
     map_sum id (\<lambda>T. mirai_pipeline (map (\<lambda>(a, c). (a, as_data c)) steps))
       (compose valid steps)
   \<and> (valid a \<longrightarrow>
        compose valid
          [(PStr a, \<lparr>cls_name = n, cls_attrs = [(''fit'', Data v), (''predict'', Data w)],
              cls_defaults = ps\<rparr>)] =
        Inr (mirai_pipeline
          [(PStr a, \<lparr>cls_name = n, cls_attrs = [(''fit'', Data v), (''predict'', Data w)],
              cls_defaults = ps\<rparr>)]))"
proof
  show "compose valid (map (\<lambda>(a, c). (a, as_data c)) steps) =
     map_sum id (\<lambda>T. mirai_pipeline (map (\<lambda>(a, c). (a, as_data c)) steps))
       (compose valid steps)"
    unfolding compose_in_order first_error_as_data map_fst_as_data
    by (simp split: option.splits)
next
  show "valid a \<longrightarrow>
        compose valid
          [(PStr a, \<lparr>cls_name = n, cls_attrs = [(''fit'', Data v), (''predict'', Data w)],
              cls_defaults = ps\<rparr>)] =
        Inr (mirai_pipeline
          [(PStr a, \<lparr>cls_name = n, cls_attrs = [(''fit'', Data v), (''predict'', Data w)],
              cls_defaults = ps\<rparr>)])"
    by (simp add: compose_def py_dir_def)
qed

theorem compose_checks_names_only_witness:
  "is_valid_pipeline_name ''naive'' \<and>
   compose is_valid_pipeline_name
     [(PStr ''naive'', \<lparr>cls_name = ''Constants'',
         cls_attrs = [(''fit'', Data (PInt 0)), (''predict'', Data PNone)],
         cls_defaults = []\<rparr>)] =
   Inr (mirai_pipeline
     [(PStr ''naive'', \<lparr>cls_name = ''Constants'',
         cls_attrs = [(''fit'', Data (PInt 0)), (''predict'', Data PNone)],
         cls_defaults = []\<rparr>)])"
proof -
  have v: "is_valid_pipeline_name ''naive''"
    by (simp add: cls_simps)
  show ?thesis
    using v compose_checks_names_only [of is_valid_pipeline_name "[]" "''naive''"
        "''Constants''" "PInt 0" PNone "[]"]
    by simp
qed

section \<open>Properties of the instances\<close>

subsection \<open>Mappings\<close>

lemma update_new_key:
  "k \<notin> fst ` set al \<Longrightarrow> AList.update k v al = al @ [(k, v)]"
  by (induction al) auto

lemma dict_update_distinct:
  "distinct (map fst (d @ entries)) \<Longrightarrow> dict_update entries d = d @ entries"
proof (induction entries arbitrary: d)
  case Nil
  show ?case by (simp add: dict_update_def)
next
  case (Cons e entries)
  obtain k v where e: "e = (k, v)" by (cases e)
  have new: "k \<notin> fst ` set d"
    using Cons.prems by (auto simp: e)
  have "distinct (map fst ((d @ [(k, v)]) @ entries))"
    using Cons.prems by (simp add: e)
  then have "dict_update entries (d @ [(k, v)]) = (d @ [(k, v)]) @ entries"
    by (rule Cons.IH)
  then show ?case
    using new by (simp add: dict_update_def e update_new_key)
qed

lemma dict_of_distinct: "distinct (map fst entries) \<Longrightarrow> dict_of entries = entries"
  using dict_update_distinct [of "[]" entries] by (simp add: dict_of_def)

lemma distinct_dict_update:
  "distinct (map fst d) \<Longrightarrow> distinct (map fst (dict_update entries d))"
proof (induction entries arbitrary: d)
  case Nil
  then show ?case by (simp add: dict_update_def)
next
  case (Cons e entries)
  obtain k v where e: "e = (k, v)" by (cases e)
  have "distinct (map fst (AList.update k v d))"
    using Cons.prems by (rule distinct_update)
  then have "distinct (map fst (dict_update entries (AList.update k v d)))"
    by (rule Cons.IH)
  then show ?case by (simp add: dict_update_def e)
qed

lemma distinct_dict_of: "distinct (map fst (dict_of entries))"
  by (simp add: dict_of_def distinct_dict_update)

lemma dict_update_same:
  "\<forall>(k, v) \<in> set entries. map_of d k = Some v \<Longrightarrow> dict_update entries d = d"
proof (induction entries)
  case Nil
  show ?case by (simp add: dict_update_def)
next
  case (Cons e entries)
  obtain k v where e: "e = (k, v)" by (cases e)
  have "AList.update k v d = d"
    using Cons.prems by (simp add: e update_triv)
  moreover have "dict_update entries d = d"
    using Cons by simp
  ultimately show ?case by (simp add: dict_update_def e)
qed

lemma dict_update_self: "distinct (map fst d) \<Longrightarrow> dict_update d d = d"
  by (rule dict_update_same) auto

subsection \<open>Flat keys\<close>

lemma contains_separator_snoc:
  "contains_separator (a @ ''_'') \<longleftrightarrow>
     contains_separator a \<or> (a \<noteq> [] \<and> last a = CHR ''_'')"
  by (induction a rule: contains_separator.induct) auto

lemma split_key_join:
  "plain_alias a \<Longrightarrow> split_key (a @ ''__'' @ k) = Some (a, k)"
proof (induction a)
  case Nil
  show ?case by simp
next
  case (Cons c a)
  show ?case
  proof (cases a)
    case Nil
    then show ?thesis using Cons.prems by (simp add: plain_alias_def)
  next
    case (Cons d a')
    have "plain_alias a"
      using Cons.prems by (simp add: plain_alias_def Cons)
    then have "split_key (a @ ''__'' @ k) = Some (a, k)"
      by (rule Cons.IH)
    moreover have "\<not> (c = CHR ''_'' \<and> d = CHR ''_'')"
      using Cons.prems by (auto simp: plain_alias_def Cons)
    ultimately show ?thesis by (auto simp: Cons)
  qed
qed

lemma plain_alias_iff:
  "plain_alias a \<longleftrightarrow> \<not> contains_separator a \<and> (a = [] \<or> last a \<noteq> CHR ''_'')"
  by (auto simp: plain_alias_def contains_separator_snoc)

subsection \<open>What get_params emits and how set_params reads it back\<close>

lemma entries_for_Nil: "entries_for a [] = []"
  by (simp add: entries_for_def map_filter_simps)

lemma entries_for_append:
  "entries_for a (xs @ ys) = entries_for a xs @ entries_for a ys"
  by (simp add: entries_for_def map_filter_def)

lemma entries_for_emit:
  assumes "plain_alias (st_alias s)"
  shows "entries_for a (emit s) = (if st_alias s = a then st_params s else [])"
proof -
  have *: "List.map_filter
       (\<lambda>(key, v). case split_key key of
           Some (a', k) \<Rightarrow> if a' = a then Some (k, v) else None
         | None \<Rightarrow> None) (map (\<lambda>(k, v). (st_alias s @ ''__'' @ k, v)) ps)
     = (if st_alias s = a then ps else [])" for ps
    using split_key_join [OF assms]
    by (induction ps) (auto simp: map_filter_simps)
  show ?thesis
    unfolding entries_for_def emit_def by (rule *)
qed

lemma entries_for_other:
  "\<forall>s \<in> set S. plain_alias (st_alias s) \<Longrightarrow> a \<notin> st_alias ` set S \<Longrightarrow>
     entries_for a (concat (map emit S)) = []"
  by (induction S) (auto simp: entries_for_append entries_for_emit entries_for_Nil)

lemma entries_for_own:
  "\<forall>s \<in> set S. plain_alias (st_alias s) \<Longrightarrow> distinct (map st_alias S) \<Longrightarrow> s \<in> set S \<Longrightarrow>
     entries_for (st_alias s) (concat (map emit S)) = st_params s"
proof (induction S)
  case Nil
  then show ?case by simp
next
  case (Cons t S)
  show ?case
  proof (cases "s = t")
    case True
    have "entries_for (st_alias t) (concat (map emit S)) = []"
      using Cons.prems by (intro entries_for_other) auto
    then show ?thesis
      using Cons.prems True by (simp add: entries_for_append entries_for_emit)
  next
    case False
    then have in_S: "s \<in> set S" using Cons.prems by simp
    then have "st_alias t \<noteq> st_alias s" using Cons.prems by auto
    moreover have "entries_for (st_alias s) (concat (map emit S)) = st_params s"
      using Cons.prems in_S by (intro Cons.IH) auto
    ultimately show ?thesis
      using Cons.prems by (simp add: entries_for_append entries_for_emit)
  qed
qed

lemma emit_key_alias:
  assumes "plain_alias (st_alias s)" and "key \<in> fst ` set (emit s)"
  shows "\<exists>k. split_key key = Some (st_alias s, k)"
  using assms split_key_join [OF assms(1)] by (auto simp: emit_def)

lemma emitted_key_alias:
  assumes "\<forall>s \<in> set S. plain_alias (st_alias s)"
    and "key \<in> fst ` set (concat (map emit S))"
  shows "\<exists>s \<in> set S. \<exists>k. split_key key = Some (st_alias s, k)"
proof -
  from assms(2) obtain s where s: "s \<in> set S" "key \<in> fst ` set (emit s)"
    by auto
  then show ?thesis
    using emit_key_alias [of s key] assms(1) by blast
qed

lemma distinct_emit:
  "distinct (map fst (st_params s)) \<Longrightarrow> distinct (map fst (emit s))"
proof -
  assume d: "distinct (map fst (st_params s))"
  have eq: "map fst (emit s) = map (\<lambda>k. st_alias s @ ''__'' @ k) (map fst (st_params s))"
    by (simp add: emit_def case_prod_unfold comp_def)
  have *: "distinct xs \<Longrightarrow> distinct (map (\<lambda>k. st_alias s @ ''__'' @ k) xs)" for xs
    by (simp add: distinct_map inj_on_def)
  show ?thesis
    unfolding eq by (rule * [OF d])
qed

lemma distinct_emitted:
  "well_formed S \<Longrightarrow> distinct (map fst (concat (map emit S)))"
proof (induction S)
  case Nil
  show ?case by simp
next
  case (Cons t S)
  have wf: "well_formed S"
    using Cons.prems by (simp add: well_formed_def)
  have plain: "\<forall>s \<in> set S. plain_alias (st_alias s)" "plain_alias (st_alias t)"
    using Cons.prems by (simp_all add: well_formed_def)
  have disjoint: "fst ` set (emit t) \<inter> fst ` set (concat (map emit S)) = {}"
  proof (rule ccontr)
    assume "fst ` set (emit t) \<inter> fst ` set (concat (map emit S)) \<noteq> {}"
    then obtain key where k1: "key \<in> fst ` set (emit t)"
      and k2: "key \<in> fst ` set (concat (map emit S))" by blast
    obtain k where kt: "split_key key = Some (st_alias t, k)"
      using emit_key_alias [OF plain(2) k1] by blast
    obtain s k' where s: "s \<in> set S" and ks: "split_key key = Some (st_alias s, k')"
      using emitted_key_alias [OF plain(1) k2] by blast
    have "st_alias t = st_alias s" using kt ks by simp
    then have "st_alias t \<in> st_alias ` set S" using s by simp
    then show False using Cons.prems by (simp add: well_formed_def)
  qed
  have "distinct (map fst (emit t))"
    using Cons.prems by (simp add: well_formed_def distinct_emit)
  then show ?case
    using Cons.IH [OF wf] disjoint by simp
qed

lemma get_params_emitted:
  "well_formed (inst_steps p) \<Longrightarrow> get_params p = concat (map emit (inst_steps p))"
  by (simp add: get_params_def dict_of_distinct distinct_emitted)

lemma no_unknown_key:
  assumes "well_formed (inst_steps p)"
  shows "\<not> list_ex (unknown_key (map st_alias (inst_steps p))) (map fst (get_params p))"
proof -
  have plain: "\<forall>s \<in> set (inst_steps p). plain_alias (st_alias s)"
    using assms by (simp add: well_formed_def)
  have "\<not> unknown_key (map st_alias (inst_steps p)) key"
    if "key \<in> fst ` set (concat (map emit (inst_steps p)))" for key
    using emitted_key_alias [OF plain that] by (auto simp: unknown_key_def)
  then show ?thesis
    using assms by (auto simp: get_params_emitted list_ex_iff)
qed

lemma set_params_get_params:
  assumes "well_formed (inst_steps p)"
  shows "set_params p (get_params p) = Inr p"
proof -
  have plain: "\<forall>s \<in> set (inst_steps p). plain_alias (st_alias s)"
    and dist: "distinct (map st_alias (inst_steps p))"
    using assms by (simp_all add: well_formed_def)
  have same: "s\<lparr>st_params := dict_update (sub_mapping (st_alias s) (get_params p)) (st_params s)\<rparr> = s"
    if s: "s \<in> set (inst_steps p)" for s
  proof -
    have d: "distinct (map fst (st_params s))"
      using assms s by (simp add: well_formed_def)
    have "entries_for (st_alias s) (get_params p) = st_params s"
      using entries_for_own [OF plain dist s] assms by (simp add: get_params_emitted)
    then have "sub_mapping (st_alias s) (get_params p) = st_params s"
      using d by (simp add: sub_mapping_def dict_of_distinct)
    then show ?thesis
      using d by (simp add: dict_update_self)
  qed
  have "map (\<lambda>s. s\<lparr>st_params := dict_update (sub_mapping (st_alias s) (get_params p)) (st_params s)\<rparr>)
      (inst_steps p) = inst_steps p"
    using same by (simp add: map_idI)
  then show ?thesis
    using no_unknown_key [OF assms] by (simp add: set_params_def)
qed

subsection \<open>The instances of a class\<close>

lemma new_preserves_order:
  "new ds flat = Inr p \<Longrightarrow> map (\<lambda>s. (st_alias s, st_type s)) (inst_steps p) = ds"
  by (auto simp: new_def comp_def case_prod_unfold split: if_splits)

lemma new_invariant:
  assumes "new ds flat = Inr p"
  shows "map st_alias (inst_steps p) = map fst ds"
    and "\<forall>s \<in> set (inst_steps p). distinct (map fst (st_params s))"
  using assms
  by (auto simp: new_def comp_def case_prod_unfold distinct_dict_update distinct_dict_of
      split: if_splits)

lemma set_params_invariant:
  assumes "set_params p flat = Inr p'"
    and "\<forall>s \<in> set (inst_steps p). distinct (map fst (st_params s))"
  shows "map st_alias (inst_steps p') = map st_alias (inst_steps p)"
    and "\<forall>s \<in> set (inst_steps p'). distinct (map fst (st_params s))"
  using assms
  by (auto simp: set_params_def comp_def distinct_dict_update split: if_splits)

lemma instance_of_invariant:
  "instance_of ds p \<Longrightarrow>
     map st_alias (inst_steps p) = map fst ds \<and>
     (\<forall>s \<in> set (inst_steps p). distinct (map fst (st_params s)))"
proof (induction rule: instance_of.induct)
  case (constructed flat p)
  then show ?case using new_invariant by blast
next
  case (updated p flat p')
  then show ?case
    using set_params_invariant [of p flat p'] by simp
qed

lemma typed_string_descriptors:
  "first_error valid steps = None \<Longrightarrow> typed (string_descriptors steps) = steps"
proof (induction steps)
  case Nil
  show ?case by (simp add: typed_def)
next
  case (Cons d steps)
  obtain v c where d: "d = (v, c)" by (cases d)
  from Cons.prems have "first_error valid steps = None"
    by (simp split: option.splits)
  then have "typed (string_descriptors steps) = steps" by (rule Cons.IH)
  then show ?case
    using Cons.prems by (cases v) (simp_all add: d typed_def)
qed

lemma declared_composed:
  assumes "compose valid steps = Inr T"
  shows "typed (declared T) = steps"
proof -
  have "first_error valid steps = None" and "T = mirai_pipeline steps"
    using assms by (auto simp: compose_in_order split: option.splits if_splits)
  then show ?thesis
    using typed_string_descriptors [of valid steps]
    by (simp add: declared_def mirai_pipeline_def)
qed

lemma set_params_preserves_order:
  "set_params p flat = Inr p' \<Longrightarrow>
     map (\<lambda>s. (st_alias s, st_type s)) (inst_steps p') =
     map (\<lambda>s. (st_alias s, st_type s)) (inst_steps p)"
  by (auto simp: set_params_def comp_def split: if_splits)

lemma instance_of_order:
  "instance_of ds p \<Longrightarrow> map (\<lambda>s. (st_alias s, st_type s)) (inst_steps p) = ds"
proof (induction rule: instance_of.induct)
  case (constructed flat p)
  then show ?case by (rule new_preserves_order)
next
  case (updated p flat p')
  then show ?case
    using set_params_preserves_order [of p flat p'] by simp
qed

lemma new_defaults: "\<exists>p. new ds [] = Inr p"
  by (simp add: new_def)

lemma typed_order:
  "typed (map (\<lambda>s. (st_alias s, st_type s)) S) = map (\<lambda>s. (PStr (st_alias s), st_type s)) S"
  by (simp add: typed_def comp_def)

lemma dict_update_Nil: "dict_update [] d = d"
  by (simp add: dict_update_def)

lemma dict_update_Cons: "dict_update ((k, v) # es) d = dict_update es (AList.update k v d)"
  by (simp add: dict_update_def)

lemmas instance_simps = new_def set_params_def get_params_def emit_def sub_mapping_def
  entries_for_def dict_of_def dict_update_Nil dict_update_Cons unknown_key_def
  map_filter_simps

lemma new_two_steps: "new two_steps [] = Inr two_steps_instance"
  by (simp add: two_steps_def two_steps_instance_def instance_simps cls_simps)

lemma compose_two_steps:
  "compose is_valid_pipeline_name (typed two_steps) = Inr (mirai_pipeline (typed two_steps))"
  by (simp add: compose_def two_steps_def typed_def cls_simps)

lemma new_naive_bayes:
  "new (declared (mirai_pipeline naive_bayes_steps)) [(''inpute__strategy'', PStr ''median'')]
     = Inr naive_bayes_instance"
  by (simp add: declared_def mirai_pipeline_def naive_bayes_steps_def naive_bayes_instance_def
      instance_simps cls_simps)

subsection \<open>The claims about instances\<close>

text \<open>
  C1. A step list passes all validation checks exactly when compose returns a class, and
  that class is the pipeline class whose \<open>steps\<close> attribute is the input list itself,
  in its declared order. The class can be instantiated, and the step sequence of every
  instance, whether built by the constructor or changed by \<^verbatim>\<open>set_params\<close> later,
  carries the declared aliases and classes in the declared order.
\<close>

theorem compose_binds_steps:
  "(compose valid steps = Inr T \<longleftrightarrow> passes_validation valid steps \<and> T = mirai_pipeline steps)
   \<and> tp_steps (mirai_pipeline steps) = steps
   \<and> (compose valid steps = Inr T \<longrightarrow>
        (\<exists>p. new (declared T) [] = Inr p) \<and>
        (\<forall>p. instance_of (declared T) p \<longrightarrow>
           map (\<lambda>s. (PStr (st_alias s), st_type s)) (inst_steps p) = steps))"
proof (intro conjI impI allI)
  have "first_error valid steps = None \<and> distinct (map fst steps)
      \<longleftrightarrow> passes_validation valid steps"
    by (auto simp: first_error_None passes_validation_def)
  then show "compose valid steps = Inr T
      \<longleftrightarrow> passes_validation valid steps \<and> T = mirai_pipeline steps"
    by (auto simp: compose_in_order split: option.splits)
  show "tp_steps (mirai_pipeline steps) = steps"
    by (simp add: mirai_pipeline_def)
next
  assume "compose valid steps = Inr T"
  show "\<exists>p. new (declared T) [] = Inr p"
    by (rule new_defaults)
next
  fix p
  assume c: "compose valid steps = Inr T" and i: "instance_of (declared T) p"
  have "map (\<lambda>s. (st_alias s, st_type s)) (inst_steps p) = declared T"
    using i by (rule instance_of_order)
  then have "typed (map (\<lambda>s. (st_alias s, st_type s)) (inst_steps p)) = steps"
    using declared_composed [OF c] by simp
  then show "map (\<lambda>s. (PStr (st_alias s), st_type s)) (inst_steps p) = steps"
    by (simp only: typed_order)
qed

theorem compose_binds_steps_witness:
  "passes_validation is_valid_pipeline_name naive_bayes_steps \<and>
   compose is_valid_pipeline_name naive_bayes_steps = Inr (mirai_pipeline naive_bayes_steps) \<and>
   tp_steps (mirai_pipeline naive_bayes_steps) =
     [(PStr ''ohe'', OneHotEncoder), (PStr ''inpute'', SimpleImputer),
      (PStr ''naive'', GaussianNB)] \<and>
   new (declared (mirai_pipeline naive_bayes_steps)) [(''inpute__strategy'', PStr ''median'')]
     = Inr naive_bayes_instance \<and>
   map (\<lambda>s. (PStr (st_alias s), st_type s)) (inst_steps naive_bayes_instance) =
     [(PStr ''ohe'', OneHotEncoder), (PStr ''inpute'', SimpleImputer),
      (PStr ''naive'', GaussianNB)]"
proof -
  have i: "instance_of (declared (mirai_pipeline naive_bayes_steps)) naive_bayes_instance"
    using new_naive_bayes by (rule instance_of.constructed)
  have s: "naive_bayes_steps =
     [(PStr ''ohe'', OneHotEncoder), (PStr ''inpute'', SimpleImputer),
      (PStr ''naive'', GaussianNB)]"
    by (simp add: naive_bayes_steps_def initial_steps_def)
  have t: "tp_steps (mirai_pipeline naive_bayes_steps) = naive_bayes_steps"
    by (simp add: mirai_pipeline_def)
  show ?thesis
    using compose_binds_steps [of is_valid_pipeline_name naive_bayes_steps
        "mirai_pipeline naive_bayes_steps"]
      compose_naive_bayes new_naive_bayes i s t
    by metis
qed


text \<open>
  C7. For a pipeline class whose declared aliases are \<open>a\<close> and \<open>b\<close>, a flat
  parameter mapping holding a key whose alias prefix is \<open>c\<close> makes the constructor fail
  with UnknownParameter, and makes \<^verbatim>\<open>set_params\<close> fail in the same way on every
  instance of the class.
\<close>

theorem unknown_parameter_rejected:
  assumes "map fst ds = [''a'', ''b'']" and "(''c__'' @ x, v) \<in> set flat"
  shows "new ds flat = Inl UnknownParameter \<and>
    (\<forall>p. instance_of ds p \<longrightarrow> set_params p flat = Inl UnknownParameter)"
proof -
  have split: "split_key (''c__'' @ x) = Some (''c'', x)"
    by simp
  then have unknown: "unknown_key [''a'', ''b''] (''c__'' @ x)"
    by (simp add: unknown_key_def)
  have key: "''c__'' @ x \<in> set (map fst flat)"
    using assms(2) by force
  have ex: "list_ex (unknown_key [''a'', ''b'']) (map fst flat)"
    using unknown key unfolding list_ex_iff by blast
  have 1: "new ds flat = Inl UnknownParameter"
    using ex assms(1) by (simp add: new_def)
  have 2: "set_params p flat = Inl UnknownParameter" if "instance_of ds p" for p
    using ex instance_of_invariant [OF that] assms(1) by (simp add: set_params_def)
  show ?thesis using 1 2 by blast
qed

theorem unknown_parameter_rejected_witness:
  "compose is_valid_pipeline_name (typed two_steps) = Inr (mirai_pipeline (typed two_steps)) \<and>
   new two_steps [(''c__x'', PInt 1)] = Inl UnknownParameter \<and>
   new two_steps [] = Inr two_steps_instance \<and>
   set_params two_steps_instance [(''c__x'', PInt 1)] = Inl UnknownParameter"
proof -
  have a: "map fst two_steps = [''a'', ''b'']"
    by (simp add: two_steps_def)
  have b: "(''c__'' @ ''x'', PInt 1) \<in> set [(''c__x'', PInt 1)]"
    by simp
  have i: "instance_of two_steps two_steps_instance"
    using new_two_steps by (rule instance_of.constructed)
  show ?thesis
    using unknown_parameter_rejected [OF a b] i new_two_steps compose_two_steps
    by simp
qed

subsection \<open>An alias that ends with an underscore\<close>

text \<open>
  In the model written from section 4.2, the mapping of \<^verbatim>\<open>get_params\<close> is read back
  by \<^verbatim>\<open>set_params\<close> unchanged when the instance is well formed (lemma
  \<open>set_params_get_params\<close>). For the alias \<open>a_\<close> the emitted key is
  \<open>a___priors\<close>, which splits into \<open>a\<close> and \<open>_priors\<close>.
\<close>

lemma trailing_underscore_roundtrip:
  "compose is_valid_pipeline_name (typed [(''a_'', GaussianNB)])
     = Inr (mirai_pipeline (typed [(''a_'', GaussianNB)])) \<and>
   new [(''a_'', GaussianNB)] [] = Inr trailing_underscore_instance \<and>
   get_params trailing_underscore_instance = [(''a___priors'', PNone)] \<and>
   set_params trailing_underscore_instance (get_params trailing_underscore_instance)
     = Inl UnknownParameter"
  by (simp add: compose_def typed_def cls_simps trailing_underscore_instance_def
      instance_simps)

end
